theory Spec2Isabelle
  imports Main "HOL-Library.Word"
begin

section \<open>JavaScript strings\<close>

text \<open>
  A JavaScript string is a sequence of 16-bit code units. Literals of the source are
  written \<open>js ''...''\<close>; every character of such a literal is ASCII, so its code unit
  is its character code.
\<close>

type_synonym jchar = "16 word"
type_synonym jstring = "jchar list"

definition js :: "string \<Rightarrow> jstring" where
  "js s = map (\<lambda>c. of_nat (of_char c)) s"

text \<open>
  The characters matched by \<open>\s\<close> in a regular expression and removed by
  \<open>String.prototype.trim\<close>: WhiteSpace and LineTerminator of ECMAScript.
\<close>

definition is_space :: "jchar \<Rightarrow> bool" where
  "is_space c =
     (c \<in> {0x09, 0x0A, 0x0B, 0x0C, 0x0D, 0x20, 0xA0, 0x1680, 0x2028, 0x2029,
           0x202F, 0x205F, 0x3000, 0xFEFF}
      \<or> (0x2000 \<le> c \<and> c \<le> 0x200A))"

definition trim :: "jstring \<Rightarrow> jstring" where
  "trim s = rev (dropWhile is_space (rev (dropWhile is_space s)))"

definition starts_with :: "jstring \<Rightarrow> jstring \<Rightarrow> bool" where
  "starts_with s p = (take (length p) s = p)"

text \<open>\<open>s.slice(a, b)\<close> for \<open>0 \<le> a\<close>, \<open>0 \<le> b\<close>; \<open>s.slice(a)\<close> is \<open>drop a s\<close>.\<close>

definition slice :: "jstring \<Rightarrow> nat \<Rightarrow> nat \<Rightarrow> jstring" where
  "slice s a b = take (b - a) (drop a s)"


fun join_with :: "jstring \<Rightarrow> jstring list \<Rightarrow> jstring" where
  "join_with sep [] = []"
| "join_with sep [x] = x"
| "join_with sep (x # y # ys) = x @ sep @ join_with sep (y # ys)"

section \<open>The platform's JSON object\<close>

text \<open>
  \<open>JSON.parse\<close> and \<open>JSON.stringify\<close> belong to the JavaScript platform, not to the
  repository. They are modelled after ECMA-262 (sections JSON.parse, JSON.stringify,
  QuoteJSONString, OrdinaryOwnPropertyKeys) on the values that JSON text denotes.
  A number is kept as its validated lexeme, standing for the double it denotes.
  The engine's recursion limit is not modelled.
\<close>

datatype json =
    JNull
  | JBool bool
  | JNum jstring
  | JStr jstring
  | JArr "json list"
  | JObj "(jstring \<times> json) list"

subsection \<open>Lexical grammar\<close>

datatype token =
    TLBrace | TRBrace | TLBracket | TRBracket | TColon | TComma
  | TString jstring | TNumber jstring | TTrue | TFalse | TNull

definition is_json_ws :: "jchar \<Rightarrow> bool" where
  "is_json_ws c = (c = 0x20 \<or> c = 0x09 \<or> c = 0x0A \<or> c = 0x0D)"

definition is_digit :: "jchar \<Rightarrow> bool" where
  "is_digit c = (0x30 \<le> c \<and> c \<le> 0x39)"

definition is_num_char :: "jchar \<Rightarrow> bool" where
  "is_num_char c = (is_digit c \<or> c = 0x2B \<or> c = 0x2D \<or> c = 0x2E \<or> c = 0x65 \<or> c = 0x45)"

definition digits1 :: "jstring \<Rightarrow> bool" where
  "digits1 s = (s \<noteq> [] \<and> list_all is_digit s)"

text \<open>The number grammar \<open>-?(0|[1-9][0-9]*)(\.[0-9]+)?([eE][+-]?[0-9]+)?\<close>.\<close>

definition valid_exp :: "jstring \<Rightarrow> bool" where
  "valid_exp s =
     (case s of
        [] \<Rightarrow> True
      | c # r \<Rightarrow> (c = 0x65 \<or> c = 0x45) \<and>
          (case r of
             [] \<Rightarrow> False
           | g # d \<Rightarrow> if g = 0x2B \<or> g = 0x2D then digits1 d else digits1 r))"

definition valid_frac :: "jstring \<Rightarrow> bool" where
  "valid_frac s =
     (case s of
        [] \<Rightarrow> True
      | c # r \<Rightarrow> if c = 0x2E
                then takeWhile is_digit r \<noteq> [] \<and> valid_exp (dropWhile is_digit r)
                else valid_exp s)"

definition valid_int :: "jstring \<Rightarrow> bool" where
  "valid_int s =
     (case s of
        [] \<Rightarrow> False
      | c # r \<Rightarrow> if c = 0x30 then valid_frac r
                else if is_digit c then valid_frac (dropWhile is_digit r)
                else False)"

definition valid_number :: "jstring \<Rightarrow> bool" where
  "valid_number s =
     (case s of
        [] \<Rightarrow> False
      | c # r \<Rightarrow> if c = 0x2D then valid_int r else valid_int s)"

definition hex_val :: "jchar \<Rightarrow> nat option" where
  "hex_val c =
     (if 0x30 \<le> c \<and> c \<le> 0x39 then Some (unat c - 0x30)
      else if 0x61 \<le> c \<and> c \<le> 0x66 then Some (unat c - 0x61 + 10)
      else if 0x41 \<le> c \<and> c \<le> 0x46 then Some (unat c - 0x41 + 10)
      else None)"

definition hex4 :: "jstring \<Rightarrow> jchar option" where
  "hex4 s =
     (case map hex_val s of
        [Some a, Some b, Some c, Some d] \<Rightarrow> Some (of_nat (a * 4096 + b * 256 + c * 16 + d))
      | _ \<Rightarrow> None)"

definition unescape :: "jchar \<Rightarrow> jchar option" where
  "unescape e =
     (if e = 0x22 then Some 0x22
      else if e = 0x5C then Some 0x5C
      else if e = 0x2F then Some 0x2F
      else if e = 0x62 then Some 0x08
      else if e = 0x66 then Some 0x0C
      else if e = 0x6E then Some 0x0A
      else if e = 0x72 then Some 0x0D
      else if e = 0x74 then Some 0x09
      else None)"

definition cons_char :: "jchar \<Rightarrow> (jstring \<times> jstring) option \<Rightarrow> (jstring \<times> jstring) option" where
  "cons_char c r = map_option (\<lambda>(s, rest). (c # s, rest)) r"

text \<open>
  The characters of a string literal after its opening quote: the decoded string and
  the text after the closing quote.
\<close>

fun lex_string :: "jstring \<Rightarrow> (jstring \<times> jstring) option" where
  "lex_string [] = None"
| "lex_string (c # cs) =
     (if c = 0x22 then Some ([], cs)
      else if c = 0x5C then
        (case cs of
           [] \<Rightarrow> None
         | e # es \<Rightarrow>
             if e = 0x75 then
               (case hex4 (take 4 es) of
                  None \<Rightarrow> None
                | Some u \<Rightarrow> cons_char u (lex_string (drop 4 es)))
             else
               (case unescape e of
                  None \<Rightarrow> None
                | Some u \<Rightarrow> cons_char u (lex_string es)))
      else if c < 0x20 then None
      else cons_char c (lex_string cs))"

lemma lex_string_length:
  "lex_string cs = Some (s, rest) \<Longrightarrow> length rest < length cs"
proof (induction cs arbitrary: s rest rule: lex_string.induct)
  case 1
  then show ?case by simp
next
  case (2 c cs)
  show ?case
  proof (cases "c = 0x22")
    case True
    with "2.prems" show ?thesis by simp
  next
    case nq: False
    show ?thesis
    proof (cases "c = 0x5C")
      case True
      with nq "2.prems" "2.IH"(1,2) show ?thesis
        by (fastforce simp: cons_char_def split: list.splits if_splits option.splits)
    next
      case False
      with nq "2.prems" "2.IH"(3) show ?thesis
        by (fastforce simp: cons_char_def split: if_splits)
    qed
  qed
qed

definition cons_tok :: "token \<Rightarrow> token list option \<Rightarrow> token list option" where
  "cons_tok t r = map_option ((#) t) r"

function lex :: "jstring \<Rightarrow> token list option" where
  "lex [] = Some []"
| "lex (c # cs) =
     (if is_json_ws c then lex cs
      else if c = 0x7B then cons_tok TLBrace (lex cs)
      else if c = 0x7D then cons_tok TRBrace (lex cs)
      else if c = 0x5B then cons_tok TLBracket (lex cs)
      else if c = 0x5D then cons_tok TRBracket (lex cs)
      else if c = 0x3A then cons_tok TColon (lex cs)
      else if c = 0x2C then cons_tok TComma (lex cs)
      else if c = 0x22 then
        (case lex_string cs of
           None \<Rightarrow> None
         | Some (s, rest) \<Rightarrow> cons_tok (TString s) (lex rest))
      else if c = 0x2D \<or> is_digit c then
        (if valid_number (c # takeWhile is_num_char cs)
         then cons_tok (TNumber (c # takeWhile is_num_char cs)) (lex (dropWhile is_num_char cs))
         else None)
      else if starts_with (c # cs) (js ''true'') then cons_tok TTrue (lex (drop 3 cs))
      else if starts_with (c # cs) (js ''false'') then cons_tok TFalse (lex (drop 4 cs))
      else if starts_with (c # cs) (js ''null'') then cons_tok TNull (lex (drop 3 cs))
      else None)"
  by pat_completeness auto
termination
proof (relation "measure length")
  fix c cs x2 x y
  assume "lex_string cs = Some x2" "(x, y) = x2"
  then show "(y, c # cs) \<in> measure length"
    using lex_string_length [of cs x y] by simp
next
  fix c cs
  show "(dropWhile is_num_char cs, c # cs) \<in> measure length"
    using length_dropWhile_le [of is_num_char cs] by simp
qed auto

subsection \<open>Objects: property order\<close>

text \<open>
  An object is the list of its own properties in the order of OrdinaryOwnPropertyKeys:
  array-index keys (canonical decimal strings below \<open>2^32 - 1\<close>) ascending, then the
  other keys in creation order. \<open>js_define\<close> is CreateDataProperty: it overwrites the
  value of an existing key in place and creates a new one otherwise.
\<close>

definition digits_value :: "jstring \<Rightarrow> nat" where
  "digits_value ds = foldl (\<lambda>a c. 10 * a + (unat c - 0x30)) 0 ds"

definition array_index :: "jstring \<Rightarrow> nat option" where
  "array_index k =
     (if digits1 k \<and> (k = [0x30] \<or> hd k \<noteq> 0x30) \<and> length k \<le> 10
         \<and> digits_value k < 2 ^ 32 - 1
      then Some (digits_value k) else None)"

fun insert_index :: "nat \<Rightarrow> jstring \<Rightarrow> json \<Rightarrow> (jstring \<times> json) list \<Rightarrow> (jstring \<times> json) list" where
  "insert_index n k v [] = [(k, v)]"
| "insert_index n k v (p # ps) =
     (case array_index (fst p) of
        None \<Rightarrow> (k, v) # p # ps
      | Some m \<Rightarrow> if m < n then p # insert_index n k v ps else (k, v) # p # ps)"

fun replace_value :: "jstring \<Rightarrow> json \<Rightarrow> (jstring \<times> json) list \<Rightarrow> (jstring \<times> json) list" where
  "replace_value k v [] = []"
| "replace_value k v (p # ps) =
     (if fst p = k then (k, v) # ps else p # replace_value k v ps)"

definition js_define :: "jstring \<Rightarrow> json \<Rightarrow> (jstring \<times> json) list \<Rightarrow> (jstring \<times> json) list" where
  "js_define k v ps =
     (if k \<in> fst ` set ps then replace_value k v ps
      else (case array_index k of
              None \<Rightarrow> ps @ [(k, v)]
            | Some n \<Rightarrow> insert_index n k v ps))"

text \<open>Reading a property of an object built by \<open>JSON.parse\<close>: \<open>None\<close> is \<open>undefined\<close>.\<close>

definition get_prop :: "(jstring \<times> json) list \<Rightarrow> jstring \<Rightarrow> json option" where
  "get_prop ps k = map_of ps k"

subsection \<open>Syntactic grammar\<close>

text \<open>
  A pushdown recogniser over the tokens: the stack holds the arrays and objects that
  are still open, \<open>expect\<close> says what the grammar allows next.
\<close>

datatype ctx =
    CArr "json list"
  | CObj "(jstring \<times> json) list" "jstring option"

datatype expect =
    EValue | EValueOrClose | EKeyOrClose | EKey | EColon | ECommaOrClose

datatype pstate = PS "ctx list" expect | PDone json

fun deliver :: "json \<Rightarrow> ctx list \<Rightarrow> pstate option" where
  "deliver v [] = Some (PDone v)"
| "deliver v (CArr xs # st) = Some (PS (CArr (v # xs) # st) ECommaOrClose)"
| "deliver v (CObj ms (Some k) # st) = Some (PS (CObj (js_define k v ms) None # st) ECommaOrClose)"
| "deliver v (CObj ms None # st) = None"

definition wants_value :: "expect \<Rightarrow> bool" where
  "wants_value e = (e = EValue \<or> e = EValueOrClose)"

fun step :: "pstate \<Rightarrow> token \<Rightarrow> pstate option" where
  "step (PDone v) t = None"
| "step (PS st e) (TString s) =
     (if wants_value e then deliver (JStr s) st
      else if e = EKey \<or> e = EKeyOrClose then
        (case st of
           CObj ms None # st' \<Rightarrow> Some (PS (CObj ms (Some s) # st') EColon)
         | _ \<Rightarrow> None)
      else None)"
| "step (PS st e) (TNumber n) = (if wants_value e then deliver (JNum n) st else None)"
| "step (PS st e) TTrue = (if wants_value e then deliver (JBool True) st else None)"
| "step (PS st e) TFalse = (if wants_value e then deliver (JBool False) st else None)"
| "step (PS st e) TNull = (if wants_value e then deliver JNull st else None)"
| "step (PS st e) TLBracket =
     (if wants_value e then Some (PS (CArr [] # st) EValueOrClose) else None)"
| "step (PS st e) TLBrace =
     (if wants_value e then Some (PS (CObj [] None # st) EKeyOrClose) else None)"
| "step (PS st e) TRBracket =
     (if e = EValueOrClose \<or> e = ECommaOrClose then
        (case st of
           CArr xs # st' \<Rightarrow> deliver (JArr (rev xs)) st'
         | _ \<Rightarrow> None)
      else None)"
| "step (PS st e) TRBrace =
     (if e = EKeyOrClose \<or> e = ECommaOrClose then
        (case st of
           CObj ms None # st' \<Rightarrow> deliver (JObj ms) st'
         | _ \<Rightarrow> None)
      else None)"
| "step (PS st e) TComma =
     (if e = ECommaOrClose then
        (case st of
           CArr xs # st' \<Rightarrow> Some (PS st EValue)
         | CObj ms None # st' \<Rightarrow> Some (PS st EKey)
         | _ \<Rightarrow> None)
      else None)"
| "step (PS st e) TColon = (if e = EColon then Some (PS st EValue) else None)"

fun run_tokens :: "pstate \<Rightarrow> token list \<Rightarrow> pstate option" where
  "run_tokens st [] = Some st"
| "run_tokens st (t # ts) =
     (case step st t of
        None \<Rightarrow> None
      | Some st' \<Rightarrow> run_tokens st' ts)"

text \<open>The value of a complete token sequence.\<close>

definition parse_tokens :: "token list \<Rightarrow> json option" where
  "parse_tokens ts =
     (case run_tokens (PS [] EValue) ts of
        Some (PDone v) \<Rightarrow> Some v
      | _ \<Rightarrow> None)"

text \<open>\<open>JSON.parse(text)\<close>: \<open>None\<close> is the SyntaxError it throws.\<close>

definition JSON_parse :: "jstring \<Rightarrow> json option" where
  "JSON_parse s =
     (case lex s of
        None \<Rightarrow> None
      | Some ts \<Rightarrow> parse_tokens ts)"

subsection \<open>Serialisation\<close>

definition hex_digit :: "nat \<Rightarrow> jchar" where
  "hex_digit n = (if n < 10 then of_nat (0x30 + n) else of_nat (0x61 + (n - 10)))"

definition unicode_escape :: "jchar \<Rightarrow> jstring" where
  "unicode_escape c =
     [0x5C, 0x75, hex_digit (unat c div 4096), hex_digit (unat c div 256 mod 16),
      hex_digit (unat c div 16 mod 16), hex_digit (unat c mod 16)]"

definition is_high_surrogate :: "jchar \<Rightarrow> bool" where
  "is_high_surrogate c = (0xD800 \<le> c \<and> c \<le> 0xDBFF)"

definition is_low_surrogate :: "jchar \<Rightarrow> bool" where
  "is_low_surrogate c = (0xDC00 \<le> c \<and> c \<le> 0xDFFF)"

definition escape_unit :: "jchar \<Rightarrow> jstring" where
  "escape_unit c =
     (if c = 0x08 then [0x5C, 0x62]
      else if c = 0x09 then [0x5C, 0x74]
      else if c = 0x0A then [0x5C, 0x6E]
      else if c = 0x0C then [0x5C, 0x66]
      else if c = 0x0D then [0x5C, 0x72]
      else if c = 0x22 then [0x5C, 0x22]
      else if c = 0x5C then [0x5C, 0x5C]
      else if c < 0x20 \<or> is_high_surrogate c \<or> is_low_surrogate c then unicode_escape c
      else [c])"

text \<open>QuoteJSONString walks code points: a surrogate pair is copied, a lone surrogate escaped.\<close>

fun quote_body :: "jstring \<Rightarrow> jstring" where
  "quote_body [] = []"
| "quote_body [c] = escape_unit c"
| "quote_body (c # d # cs) =
     (if is_high_surrogate c \<and> is_low_surrogate d then c # d # quote_body cs
      else escape_unit c @ quote_body (d # cs))"

definition quote :: "jstring \<Rightarrow> jstring" where
  "quote s = [0x22] @ quote_body s @ [0x22]"

text \<open>
  Number::toString of the double a lexeme denotes. An integer lexeme below \<open>2^53\<close> is
  exact and prints as its digits (\<open>-0\<close> as \<open>0\<close>); every other lexeme goes through
  floating point, which the parameter \<open>fmt\<close> stands for.
\<close>

definition number_to_string :: "(jstring \<Rightarrow> jstring) \<Rightarrow> jstring \<Rightarrow> jstring" where
  "number_to_string fmt n =
     (let ds = (if take 1 n = [0x2D] then drop 1 n else n)
      in if digits1 ds \<and> digits_value ds < 2 ^ 53
         then (if digits_value ds = 0 then [0x30] else n)
         else fmt n)"

text \<open>\<open>JSON.stringify(v)\<close>, without indentation.\<close>

fun JSON_stringify :: "(jstring \<Rightarrow> jstring) \<Rightarrow> json \<Rightarrow> jstring" where
  "JSON_stringify fmt JNull = js ''null''"
| "JSON_stringify fmt (JBool b) = (if b then js ''true'' else js ''false'')"
| "JSON_stringify fmt (JNum n) = number_to_string fmt n"
| "JSON_stringify fmt (JStr s) = quote s"
| "JSON_stringify fmt (JArr xs) =
     [0x5B] @ join_with [0x2C] (map (JSON_stringify fmt) xs) @ [0x5D]"
| "JSON_stringify fmt (JObj ps) =
     [0x7B] @ join_with [0x2C] (map (\<lambda>p. quote (fst p) @ [0x3A] @ JSON_stringify fmt (snd p)) ps)
       @ [0x7D]"

text \<open>\<open>JSON.stringify(v, null, 2)\<close>; \<open>ind\<close> is the indentation reached so far.\<close>

fun stringify_indent :: "(jstring \<Rightarrow> jstring) \<Rightarrow> jstring \<Rightarrow> json \<Rightarrow> jstring" where
  "stringify_indent fmt ind JNull = js ''null''"
| "stringify_indent fmt ind (JBool b) = (if b then js ''true'' else js ''false'')"
| "stringify_indent fmt ind (JNum n) = number_to_string fmt n"
| "stringify_indent fmt ind (JStr s) = quote s"
| "stringify_indent fmt ind (JArr xs) =
     (if xs = [] then js ''[]''
      else [0x5B, 0x0A] @ (ind @ js ''  '')
             @ join_with ([0x2C, 0x0A] @ (ind @ js ''  ''))
                 (map (stringify_indent fmt (ind @ js ''  '')) xs)
             @ [0x0A] @ ind @ [0x5D])"
| "stringify_indent fmt ind (JObj ps) =
     (if ps = [] then js ''{}''
      else [0x7B, 0x0A] @ (ind @ js ''  '')
             @ join_with ([0x2C, 0x0A] @ (ind @ js ''  ''))
                 (map (\<lambda>p. quote (fst p) @ [0x3A, 0x20]
                              @ stringify_indent fmt (ind @ js ''  '') (snd p)) ps)
             @ [0x0A] @ ind @ [0x7D])"

definition JSON_stringify2 :: "(jstring \<Rightarrow> jstring) \<Rightarrow> json \<Rightarrow> jstring" where
  "JSON_stringify2 fmt v = stringify_indent fmt [] v"

section \<open>The regular expressions of the chat panel\<close>

text \<open>
  Two patterns occur in the panel, both with the global flag:
  \<open>JsonBlock\<close> is \<^verbatim>\<open>/```json\s*\n([\s\S]*?)\n```/g\<close> (ChatDiscussion.vue,
  \<open>completedJsonRegex\<close>; ChatSidebar.vue, \<open>jsonBlockRegex\<close>) and \<open>JsonOpen\<close> is
  \<^verbatim>\<open>/```json\s*\n/g\<close> (\<open>incompleteJsonRegex\<close>). Matching follows the backtracking
  semantics of ECMAScript: \<open>\s*\<close> is greedy and gives characters back one at a time,
  \<open>[\s\S]*?\<close> is lazy and takes characters one at a time.
\<close>

datatype regex = JsonBlock | JsonOpen

definition fence_open :: jstring where
  "fence_open = js ''```json''"

definition fence_close :: jstring where
  "fence_close = 0x0A # js ''```''"

text \<open>The lazy group: the least \<open>j\<close> such that the closing fence starts at \<open>j\<close>.\<close>

fun find_close :: "jstring \<Rightarrow> nat option" where
  "find_close [] = None"
| "find_close (c # cs) =
     (if starts_with (c # cs) fence_close then Some 0
      else map_option Suc (find_close cs))"

text \<open>
  What follows \<open>\s*\<close> once it holds \<open>k\<close> characters: the length matched from the end of
  the opening fence, and the capture group.
\<close>

definition block_tail_at :: "jstring \<Rightarrow> nat \<Rightarrow> (nat \<times> jstring) option" where
  "block_tail_at t k =
     (if k < length t \<and> t ! k = 0x0A then
        (case find_close (drop (Suc k) t) of
           None \<Rightarrow> None
         | Some j \<Rightarrow> Some (k + 1 + j + 4, take j (drop (Suc k) t)))
      else None)"

definition open_tail_at :: "jstring \<Rightarrow> nat \<Rightarrow> (nat \<times> jstring) option" where
  "open_tail_at t k = (if k < length t \<and> t ! k = 0x0A then Some (k + 1, []) else None)"

fun backtrack :: "(nat \<Rightarrow> (nat \<times> jstring) option) \<Rightarrow> nat \<Rightarrow> (nat \<times> jstring) option" where
  "backtrack f 0 = f 0"
| "backtrack f (Suc k) =
     (case f (Suc k) of
        Some r \<Rightarrow> Some r
      | None \<Rightarrow> backtrack f k)"

text \<open>A match that starts at the head of \<open>s\<close>: its length and its capture group.\<close>

definition match_here :: "regex \<Rightarrow> jstring \<Rightarrow> (nat \<times> jstring) option" where
  "match_here r s =
     (if starts_with s fence_open then
        (let t = drop 7 s;
             n = length (takeWhile is_space t)
         in map_option (\<lambda>(l, c). (7 + l, c))
              (backtrack (case r of JsonBlock \<Rightarrow> block_tail_at t | JsonOpen \<Rightarrow> open_tail_at t) n))
      else None)"

text \<open>The leftmost match in the suffix \<open>s\<close> that starts at index \<open>i\<close> of the text.\<close>

fun search :: "regex \<Rightarrow> jstring \<Rightarrow> nat \<Rightarrow> (nat \<times> nat \<times> jstring) option" where
  "search r [] i = None"
| "search r (c # cs) i =
     (case match_here r (c # cs) of
        Some (l, cap) \<Rightarrow> Some (i, l, cap)
      | None \<Rightarrow> search r cs (Suc i))"

definition regex_search :: "regex \<Rightarrow> jstring \<Rightarrow> nat \<Rightarrow> (nat \<times> nat \<times> jstring) option" where
  "regex_search r text from = search r (drop from text) from"

lemma starts_with_length: "starts_with s p \<Longrightarrow> length p \<le> length s"
proof -
  assume "starts_with s p"
  then have "length (take (length p) s) = length p"
    by (simp add: starts_with_def)
  then show ?thesis by simp
qed

lemma find_close_bound: "find_close s = Some j \<Longrightarrow> j + 4 \<le> length s"
proof (induction s arbitrary: j)
  case Nil
  then show ?case by simp
next
  case (Cons c cs)
  show ?case
  proof (cases "starts_with (c # cs) fence_close")
    case True
    from starts_with_length [OF True] have "4 \<le> length (c # cs)"
      by (simp add: fence_close_def js_def)
    with True Cons.prems show ?thesis by simp
  next
    case False
    with Cons show ?thesis by auto
  qed
qed

lemma backtrack_Some: "backtrack f n = Some r \<Longrightarrow> \<exists>k\<le>n. f k = Some r"
proof (induction n)
  case 0
  then show ?case by simp
next
  case (Suc n)
  then show ?case
    by (cases "f (Suc n)") (auto intro: le_SucI)
qed

lemma block_tail_at_bound: "block_tail_at t k = Some (l, c) \<Longrightarrow> 0 < l \<and> l \<le> length t"
  using find_close_bound [of "drop (Suc k) t"]
  by (fastforce simp: block_tail_at_def split: if_splits option.splits)

lemma open_tail_at_bound: "open_tail_at t k = Some (l, c) \<Longrightarrow> 0 < l \<and> l \<le> length t"
  by (auto simp: open_tail_at_def split: if_splits)

lemma match_here_bound:
  assumes "match_here r s = Some (l, c)"
  shows "0 < l \<and> l \<le> length s"
proof -
  from assms have pre: "starts_with s fence_open"
    by (simp add: match_here_def split: if_splits)
  from starts_with_length [OF pre] have len: "7 \<le> length s"
    by (simp add: fence_open_def js_def)
  from assms pre obtain l' n where l: "l = 7 + l'"
    and bt: "backtrack (case r of JsonBlock \<Rightarrow> block_tail_at (drop 7 s)
                                | JsonOpen \<Rightarrow> open_tail_at (drop 7 s)) n = Some (l', c)"
    by (auto simp: match_here_def Let_def)
  from backtrack_Some [OF bt] have "0 < l' \<and> l' \<le> length (drop 7 s)"
    by (cases r) (auto dest: block_tail_at_bound open_tail_at_bound)
  with l len show ?thesis by auto
qed

lemma search_bound:
  "search r s i = Some (j, l, c) \<Longrightarrow> i \<le> j \<and> 0 < l \<and> j + l \<le> i + length s"
proof (induction s arbitrary: i)
  case Nil
  then show ?case by simp
next
  case (Cons x xs)
  show ?case
  proof (cases "match_here r (x # xs)")
    case None
    with Cons.prems have "search r xs (Suc i) = Some (j, l, c)" by simp
    from Cons.IH [OF this] show ?thesis by simp
  next
    case (Some m)
    with Cons.prems have "match_here r (x # xs) = Some (l, c)" and "j = i"
      by (auto split: prod.splits)
    with match_here_bound [of r "x # xs" l c] show ?thesis by simp
  qed
qed

lemma regex_search_bound:
  assumes "regex_search r text from = Some (j, l, c)"
  shows "from \<le> j \<and> 0 < l \<and> j + l \<le> length text"
proof -
  from assms have s: "search r (drop from text) from = Some (j, l, c)"
    by (simp add: regex_search_def)
  then have "drop from text \<noteq> []" by auto
  then have "from \<le> length text" by simp
  with search_bound [OF s] show ?thesis by simp
qed

text \<open>
  All matches from index \<open>from\<close> on, as \<open>String.prototype.matchAll\<close> yields them: each
  search resumes at the end of the previous match.
\<close>

function regex_matches :: "regex \<Rightarrow> jstring \<Rightarrow> nat \<Rightarrow> (nat \<times> nat \<times> jstring) list" where
  "regex_matches r text from =
     (case regex_search r text from of
        None \<Rightarrow> []
      | Some (i, l, cap) \<Rightarrow> (i, l, cap) # regex_matches r text (i + l))"
  by pat_completeness auto
termination
proof (relation "measure (\<lambda>(r, text, from). length text - from)")
  fix r tx frm x2 i y l cap
  assume "regex_search r tx frm = Some x2" "(i, y) = x2" "(l, cap) = y"
  then have "regex_search r tx frm = Some (i, l, cap)" by simp
  from regex_search_bound [OF this]
  have "length tx - (i + l) < length tx - frm" by arith
  then show "((r, tx, i + l), (r, tx, frm)) \<in> measure (\<lambda>(r, text, from). length text - from)"
    by simp
qed simp

declare regex_matches.simps [simp del]

text \<open>The matches come in strictly increasing order of their start.\<close>

lemma regex_matches_from:
  "\<forall>m \<in> set (regex_matches r tx frm). frm \<le> fst m"
proof (induction r tx frm rule: regex_matches.induct)
  case (1 r tx frm)
  show ?case
  proof (cases "regex_search r tx frm")
    case None
    then show ?thesis by (simp add: regex_matches.simps [of r tx frm])
  next
    case (Some m)
    obtain i l cap where m: "m = (i, l, cap)" by (cases m) auto
    from Some m have s: "regex_search r tx frm = Some (i, l, cap)" by simp
    from regex_search_bound [OF s] have b: "frm \<le> i" "0 < l" by simp_all
    from "1.IH" [OF s refl refl] have "\<forall>m \<in> set (regex_matches r tx (i + l)). i + l \<le> fst m" .
    with b s show ?thesis
      by (auto simp: regex_matches.simps [of r tx frm])
  qed
qed

lemma regex_matches_sorted:
  "sorted_wrt (<) (map fst (regex_matches r tx frm))"
proof (induction r tx frm rule: regex_matches.induct)
  case (1 r tx frm)
  show ?case
  proof (cases "regex_search r tx frm")
    case None
    then show ?thesis by (simp add: regex_matches.simps [of r tx frm])
  next
    case (Some m)
    obtain i l cap where m: "m = (i, l, cap)" by (cases m) auto
    from Some m have s: "regex_search r tx frm = Some (i, l, cap)" by simp
    from regex_search_bound [OF s] have b: "0 < l" by simp
    from regex_matches_from [of r tx "i + l"] b
    have "\<forall>m \<in> set (regex_matches r tx (i + l)). i < fst m" by fastforce
    with "1.IH" [OF s refl refl] s show ?thesis
      by (auto simp: regex_matches.simps [of r tx frm])
  qed
qed

lemma sorted_wrt_last_Max:
  fixes xs :: "nat list"
  shows "sorted_wrt (<) xs \<Longrightarrow> xs \<noteq> [] \<Longrightarrow> last xs = Max (set xs)"
proof (induction xs)
  case Nil
  then show ?case by simp
next
  case (Cons x xs)
  show ?case
  proof (cases "xs = []")
    case True
    then show ?thesis by simp
  next
    case False
    with Cons have ih: "last xs = Max (set xs)" by simp
    from False have "last xs \<in> set xs" by simp
    with Cons.prems have "x < last xs" by auto
    with ih False show ?thesis by (simp add: max_def)
  qed
qed

subsection \<open>RegExp objects\<close>

text \<open>
  A RegExp object with the global flag carries a mutable \<open>lastIndex\<close>. The store maps
  the address of every RegExp object to its \<open>lastIndex\<close>; \<open>lim\<close> is the next free
  address. Evaluating a regular expression literal allocates a new object.
\<close>

record heap =
  lim :: nat
  lastIndex :: "nat \<Rightarrow> nat"

definition new_RegExp :: "heap \<Rightarrow> nat \<times> heap" where
  "new_RegExp h = (lim h, h\<lparr>lim := Suc (lim h), lastIndex := (lastIndex h)(lim h := 0)\<rparr>)"

text \<open>
  \<open>re.exec(text)\<close>: the search starts at \<open>lastIndex\<close>; a match moves \<open>lastIndex\<close> to its
  end, a failure resets it to 0.
\<close>

definition exec :: "regex \<Rightarrow> nat \<Rightarrow> jstring \<Rightarrow> heap \<Rightarrow> (nat \<times> nat \<times> jstring) option \<times> heap" where
  "exec r a text h =
     (case regex_search r text (lastIndex h a) of
        None \<Rightarrow> (None, h\<lparr>lastIndex := (lastIndex h)(a := 0)\<rparr>)
      | Some (i, l, cap) \<Rightarrow> (Some (i, l, cap), h\<lparr>lastIndex := (lastIndex h)(a := i + l)\<rparr>))"

lemma exec_progress:
  assumes "exec r a text h = (Some (i, l, cap), h')"
  shows "length text - lastIndex h' a < length text - lastIndex h a"
proof -
  from assms have s: "regex_search r text (lastIndex h a) = Some (i, l, cap)"
    and h': "h' = h\<lparr>lastIndex := (lastIndex h)(a := i + l)\<rparr>"
    by (auto simp: exec_def split: option.splits)
  from regex_search_bound [OF s]
  have "length text - (i + l) < length text - lastIndex h a" by arith
  with h' show ?thesis by simp
qed

section \<open>The incremental content parser (ChatDiscussion.vue)\<close>

datatype ParsedMessagePart = TextPart jstring | JsonPart jstring

record completed_block =
  c_start :: nat
  c_end :: nat
  c_content :: jstring

record incomplete_block =
  i_start :: nat
  i_startPos :: nat

text \<open>An element of \<open>allBlocks\<close>: a block tagged with its type, with an \<open>end\<close>.\<close>

datatype block =
    Completed nat nat jstring
  | Incomplete nat nat nat

fun block_start :: "block \<Rightarrow> nat" where
  "block_start (Completed s e c) = s"
| "block_start (Incomplete s p e) = s"

fun block_end :: "block \<Rightarrow> nat" where
  "block_end (Completed s e c) = e"
| "block_end (Incomplete s p e) = e"

text \<open>\<open>while ((match = completedJsonRegex.exec(text)) !== null) completedBlocks.push(...)\<close>\<close>

function completed_loop ::
  "nat \<Rightarrow> jstring \<Rightarrow> heap \<Rightarrow> completed_block list \<Rightarrow> completed_block list \<times> heap" where
  "completed_loop a text h blocks =
     (case exec JsonBlock a text h of
        (None, h') \<Rightarrow> (blocks, h')
      | (Some (i, l, cap), h') \<Rightarrow>
          completed_loop a text h'
            (blocks @ [\<lparr>c_start = i, c_end = i + l, c_content = cap\<rparr>]))"
  by pat_completeness auto
termination
proof (relation "measure (\<lambda>(a, tx, h, blocks). length tx - lastIndex h a)")
  fix a tx h blocks x ma h' m i y l cap
  assume "(ma, h') = exec JsonBlock a tx h" "ma = Some m" "(i, y) = m" "(l, cap) = y"
  then have "exec JsonBlock a tx h = (Some (i, l, cap), h')" by simp
  from exec_progress [OF this]
  show "((a, tx, h', blocks @ [\<lparr>c_start = i, c_end = i + l, c_content = cap\<rparr>]), (a, tx, h, blocks))
          \<in> measure (\<lambda>(a, tx, h, blocks). length tx - lastIndex h a)"
    by simp
qed simp

declare completed_loop.simps [simp del]

text \<open>
  The second loop: a start marker that lies inside a completed block is dropped, the
  others become incomplete blocks.
\<close>

definition isCompleted :: "completed_block list \<Rightarrow> nat \<Rightarrow> bool" where
  "isCompleted completedBlocks startPos =
     list_ex (\<lambda>b. c_start b \<le> startPos \<and> startPos < c_end b) completedBlocks"

function incomplete_loop ::
  "nat \<Rightarrow> jstring \<Rightarrow> completed_block list \<Rightarrow> heap \<Rightarrow> incomplete_block list
     \<Rightarrow> incomplete_block list \<times> heap" where
  "incomplete_loop a text completedBlocks h blocks =
     (case exec JsonOpen a text h of
        (None, h') \<Rightarrow> (blocks, h')
      | (Some (i, l, cap), h') \<Rightarrow>
          incomplete_loop a text completedBlocks h'
            (if isCompleted completedBlocks i then blocks
             else blocks @ [\<lparr>i_start = i, i_startPos = i + l\<rparr>]))"
  by pat_completeness auto
termination
proof (relation "measure (\<lambda>(a, tx, cs, h, blocks). length tx - lastIndex h a)")
  fix a tx cs h blocks x ma h' m i y l cap
  assume "(ma, h') = exec JsonOpen a tx h" "ma = Some m" "(i, y) = m" "(l, cap) = y"
  then have "exec JsonOpen a tx h = (Some (i, l, cap), h')" by simp
  from exec_progress [OF this]
  show "((a, tx, cs, h',
           if isCompleted cs i then blocks else blocks @ [\<lparr>i_start = i, i_startPos = i + l\<rparr>]),
          (a, tx, cs, h, blocks))
          \<in> measure (\<lambda>(a, tx, cs, h, blocks). length tx - lastIndex h a)"
    by simp
qed simp

declare incomplete_loop.simps [simp del]

text \<open>
  \<open>allBlocks\<close>: the completed blocks, then the incomplete ones with \<open>end = text.length\<close>,
  sorted by \<open>start\<close> (\<open>Array.prototype.sort\<close> is stable).
\<close>

definition allBlocks :: "jstring \<Rightarrow> completed_block list \<Rightarrow> incomplete_block list \<Rightarrow> block list" where
  "allBlocks text completedBlocks incompleteBlocks =
     sort_key block_start
       (map (\<lambda>b. Completed (c_start b) (c_end b) (c_content b)) completedBlocks
        @ map (\<lambda>b. Incomplete (i_start b) (i_startPos b) (length text)) incompleteBlocks)"

text \<open>The text between \<open>lastIndex\<close> and the next block, trimmed; pushed when not empty.\<close>

definition push_text :: "jstring \<Rightarrow> ParsedMessagePart list \<Rightarrow> ParsedMessagePart list" where
  "push_text t parts = (if trim t \<noteq> [] then parts @ [TextPart (trim t)] else parts)"

text \<open>
  The block's content, reformatted when it parses as JSON and passed through when
  \<open>JSON.parse\<close> throws.
\<close>

definition push_json ::
  "(jstring \<Rightarrow> jstring) \<Rightarrow> jstring \<Rightarrow> ParsedMessagePart list \<Rightarrow> ParsedMessagePart list" where
  "push_json fmt jsonContent parts =
     (case JSON_parse jsonContent of
        Some parsed \<Rightarrow> parts @ [JsonPart (JSON_stringify2 fmt parsed)]
      | None \<Rightarrow> parts @ [JsonPart jsonContent])"

text \<open>\<open>for (const block of allBlocks) { ... lastIndex = block.end }\<close>\<close>

fun block_loop ::
  "(jstring \<Rightarrow> jstring) \<Rightarrow> jstring \<Rightarrow> block list \<Rightarrow> nat \<Rightarrow> ParsedMessagePart list
     \<Rightarrow> ParsedMessagePart list \<times> nat" where
  "block_loop fmt text [] lastIdx parts = (parts, lastIdx)"
| "block_loop fmt text (b # bs) lastIdx parts =
     (let parts1 = (if block_start b > lastIdx
                    then push_text (slice text lastIdx (block_start b)) parts
                    else parts);
          jsonContent = (case b of
                           Completed s e c \<Rightarrow> c
                         | Incomplete s p e \<Rightarrow> drop p text)
      in block_loop fmt text bs (block_end b) (push_json fmt jsonContent parts1))"

text \<open>
  \<open>parseMessageContent(text)\<close>, run on a store of RegExp objects: the segments, and the
  store it leaves. \<open>fmt\<close> is the platform's printing of non-integer numbers.
\<close>

definition parseMessageContent ::
  "(jstring \<Rightarrow> jstring) \<Rightarrow> jstring \<Rightarrow> heap \<Rightarrow> ParsedMessagePart list \<times> heap" where
  "parseMessageContent fmt text h =
     (let (completedJsonRegex, h1) = new_RegExp h;
          (completedBlocks, h2) = completed_loop completedJsonRegex text h1 [];
          (incompleteJsonRegex, h3) = new_RegExp h2;
          (incompleteBlocks, h4) =
             incomplete_loop incompleteJsonRegex text completedBlocks h3 [];
          (parts, lastIdx) =
             block_loop fmt text (allBlocks text completedBlocks incompleteBlocks) 0 [];
          parts1 = (if lastIdx < length text then push_text (drop lastIdx text) parts
                    else parts);
          parts2 = (if length parts1 = 0 then parts1 @ [TextPart text] else parts1)
      in (parts2, h4))"

subsection \<open>The parser does not depend on the store\<close>

text \<open>
  The segments as a function of the text alone: both loops collect the matches from
  index 0, whatever the store holds.
\<close>

definition completed_of :: "nat \<times> nat \<times> jstring \<Rightarrow> completed_block" where
  "completed_of m = (case m of (i, l, cap) \<Rightarrow> \<lparr>c_start = i, c_end = i + l, c_content = cap\<rparr>)"

definition incomplete_of :: "nat \<times> nat \<times> jstring \<Rightarrow> incomplete_block" where
  "incomplete_of m = (case m of (i, l, cap) \<Rightarrow> \<lparr>i_start = i, i_startPos = i + l\<rparr>)"

definition segments :: "(jstring \<Rightarrow> jstring) \<Rightarrow> jstring \<Rightarrow> ParsedMessagePart list" where
  "segments fmt tx =
     (let completedBlocks = map completed_of (regex_matches JsonBlock tx 0);
          incompleteBlocks =
            map incomplete_of
              (filter (\<lambda>m. \<not> isCompleted completedBlocks (fst m)) (regex_matches JsonOpen tx 0));
          (parts, lastIdx) =
             block_loop fmt tx (allBlocks tx completedBlocks incompleteBlocks) 0 [];
          parts1 = (if lastIdx < length tx then push_text (drop lastIdx tx) parts else parts)
      in if length parts1 = 0 then parts1 @ [TextPart tx] else parts1)"

lemma completed_loop_fst:
  "fst (completed_loop a tx h acc) =
     acc @ map completed_of (regex_matches JsonBlock tx (lastIndex h a))"
proof (induction a tx h acc rule: completed_loop.induct)
  case (1 a tx h blocks)
  show ?case
  proof (cases "regex_search JsonBlock tx (lastIndex h a)")
    case None
    then show ?thesis
      by (simp add: completed_loop.simps [of a tx h] regex_matches.simps [of _ tx "lastIndex h a"] exec_def)
  next
    case (Some m)
    obtain i l cap where m: "m = (i, l, cap)" by (cases m) auto
    let ?h' = "h\<lparr>lastIndex := (lastIndex h)(a := i + l)\<rparr>"
    have ex: "exec JsonBlock a tx h = (Some (i, l, cap), ?h')"
      using Some m by (simp add: exec_def)
    have ih: "fst (completed_loop a tx ?h' (blocks @ [\<lparr>c_start = i, c_end = i + l, c_content = cap\<rparr>])) =
       (blocks @ [\<lparr>c_start = i, c_end = i + l, c_content = cap\<rparr>])
          @ map completed_of (regex_matches JsonBlock tx (lastIndex ?h' a))"
      using "1.IH" [OF ex [symmetric] refl refl refl] by simp
    show ?thesis
      using Some m ih
      by (simp add: completed_loop.simps [of a tx h] regex_matches.simps [of _ tx "lastIndex h a"] ex completed_of_def)
  qed
qed

lemma incomplete_loop_fst:
  "fst (incomplete_loop a tx cs h acc) =
     acc @ map incomplete_of
             (filter (\<lambda>m. \<not> isCompleted cs (fst m)) (regex_matches JsonOpen tx (lastIndex h a)))"
proof (induction a tx cs h acc rule: incomplete_loop.induct)
  case (1 a tx cs h blocks)
  show ?case
  proof (cases "regex_search JsonOpen tx (lastIndex h a)")
    case None
    then show ?thesis
      by (simp add: incomplete_loop.simps [of a tx cs h] regex_matches.simps [of _ tx "lastIndex h a"] exec_def)
  next
    case (Some m)
    obtain i l cap where m: "m = (i, l, cap)" by (cases m) auto
    let ?h' = "h\<lparr>lastIndex := (lastIndex h)(a := i + l)\<rparr>"
    let ?blocks' = "if isCompleted cs i then blocks else blocks @ [\<lparr>i_start = i, i_startPos = i + l\<rparr>]"
    have ex: "exec JsonOpen a tx h = (Some (i, l, cap), ?h')"
      using Some m by (simp add: exec_def)
    have ih: "fst (incomplete_loop a tx cs ?h' ?blocks') =
       ?blocks' @ map incomplete_of
             (filter (\<lambda>m. \<not> isCompleted cs (fst m)) (regex_matches JsonOpen tx (lastIndex ?h' a)))"
      using "1.IH" [OF ex [symmetric] refl refl refl] by simp
    show ?thesis
      using Some m ih
      by (simp add: incomplete_loop.simps [of a tx cs h] regex_matches.simps [of _ tx "lastIndex h a"] ex incomplete_of_def)
  qed
qed

lemma parseMessageContent_segments:
  "fst (parseMessageContent fmt tx h) = segments fmt tx"
proof -
  obtain cb h2 where cl: "completed_loop (lim h) tx (snd (new_RegExp h)) [] = (cb, h2)"
    by (cases "completed_loop (lim h) tx (snd (new_RegExp h)) []") auto
  obtain ib h4 where il: "incomplete_loop (lim h2) tx cb (snd (new_RegExp h2)) [] = (ib, h4)"
    by (cases "incomplete_loop (lim h2) tx cb (snd (new_RegExp h2)) []") auto
  have cb: "cb = map completed_of (regex_matches JsonBlock tx 0)"
    using completed_loop_fst [of "lim h" tx "snd (new_RegExp h)" "[]"] cl
    by (simp add: new_RegExp_def)
  have ib: "ib = map incomplete_of
             (filter (\<lambda>m. \<not> isCompleted cb (fst m)) (regex_matches JsonOpen tx 0))"
    using incomplete_loop_fst [of "lim h2" tx cb "snd (new_RegExp h2)" "[]"] il
    by (simp add: new_RegExp_def)
  show ?thesis
    using cl il
    by (simp add: parseMessageContent_def segments_def Let_def new_RegExp_def cb [symmetric] ib [symmetric] split: prod.splits)
qed

section \<open>Workflow extraction and replacement (ChatSidebar.vue)\<close>

text \<open>
  \<open>parsed && typeof parsed === 'object' && parsed.nodes && Array.isArray(parsed.nodes)\<close>
  on a value that \<open>JSON.parse\<close> returned: only objects and arrays are truthy with
  \<open>typeof\<close> \<open>'object'\<close>, an array has no property \<open>nodes\<close>, and every array is truthy.
\<close>

definition is_workflow :: "json \<Rightarrow> bool" where
  "is_workflow parsed =
     (case parsed of
        JObj ps \<Rightarrow>
          (case get_prop ps (js ''nodes'') of
             Some (JArr xs) \<Rightarrow> True
           | _ \<Rightarrow> False)
      | _ \<Rightarrow> False)"

definition extractWorkflowJson :: "jstring \<Rightarrow> json option" where
  "extractWorkflowJson responseText =
     (let matches = regex_matches JsonBlock responseText 0
      in if length matches = 0 then None
         else (let lastMatch = matches ! (length matches - 1);
                   jsonString = snd (snd lastMatch)
               in case JSON_parse jsonString of
                    None \<Rightarrow> None
                  | Some parsed \<Rightarrow> if is_workflow parsed then Some parsed else None))"

text \<open>
  The calls the panel makes on its collaborators (canvas operations, workflow helpers,
  toasts), in order. A collaborator may throw: \<open>throws c\<close> says whether call \<open>c\<close> does.
\<close>

datatype call =
    ResetWorkspace
  | InitializeWorkspace json
  | SetDocumentTitle json
  | ShowMessage jstring
  | ShowError jstring

text \<open>The calls of a \<open>try\<close> block up to the first that throws, and whether all returned.\<close>

fun attempt :: "(call \<Rightarrow> bool) \<Rightarrow> call list \<Rightarrow> call list \<times> bool" where
  "attempt throws [] = ([], True)"
| "attempt throws (c # cs) =
     (if throws c then ([c], False)
      else (case attempt throws cs of (done, ok) \<Rightarrow> (c # done, ok)))"

text \<open>
  Truthiness of a JSON value; \<open>zero n\<close> says whether the double that the lexeme \<open>n\<close>
  denotes is zero.
\<close>

definition truthy :: "(jstring \<Rightarrow> bool) \<Rightarrow> json \<Rightarrow> bool" where
  "truthy zero v =
     (case v of
        JNull \<Rightarrow> False
      | JBool b \<Rightarrow> b
      | JNum n \<Rightarrow> \<not> zero n
      | JStr s \<Rightarrow> s \<noteq> []
      | JArr xs \<Rightarrow> True
      | JObj ps \<Rightarrow> True)"

definition workflow_name :: "json \<Rightarrow> json option" where
  "workflow_name workflowData =
     (case workflowData of
        JObj ps \<Rightarrow> get_prop ps (js ''name'')
      | _ \<Rightarrow> None)"

text \<open>
  \<open>importWorkflowFromAI\<close>: the calls it makes, and whether it returns. When a call of the
  \<open>try\<close> block throws, the \<open>catch\<close> block shows the error notice; when that call throws
  too, the function is left by the exception.
\<close>

text \<open>
  \<open>importWorkflowFromAI\<close>: the calls it makes, and whether it returns. When a call of the
  \<open>try\<close> block throws, the \<open>catch\<close> block shows the error notice; when that call throws
  too, the function is left by the exception.
\<close>

definition importWorkflowFromAI ::
  "(call \<Rightarrow> bool) \<Rightarrow> (jstring \<Rightarrow> bool) \<Rightarrow> json \<Rightarrow> call list \<times> bool" where
  "importWorkflowFromAI throws zero workflowData =
     (case attempt throws
             ([ResetWorkspace, InitializeWorkspace workflowData]
              @ (case workflow_name workflowData of
                   Some name \<Rightarrow> if truthy zero name then [SetDocumentTitle name] else []
                 | None \<Rightarrow> [])
              @ [ShowMessage (js ''Workflow Replaced'')]) of
        (done, True) \<Rightarrow> (done, True)
      | (done, False) \<Rightarrow>
          (let notice = ShowError (js ''Failed to replace workflow from AI response'')
           in (done @ [notice], \<not> throws notice)))"

record panel =
  isResponding :: bool
  isGeneratingWorkflow :: bool

text \<open>
  The \<open>onComplete\<close> callback of \<open>handleSendMessage\<close>, on the response accumulated by
  \<open>onText\<close>: the panel's new state and the calls it makes. When \<open>importWorkflowFromAI\<close>
  is left by an exception, so is the callback: the generation flag is not reset and the
  closing notice is not shown.
\<close>

definition onComplete ::
  "(call \<Rightarrow> bool) \<Rightarrow> (jstring \<Rightarrow> bool) \<Rightarrow> jstring \<Rightarrow> panel \<Rightarrow> panel \<times> call list" where
  "onComplete throws zero fullResponse st =
     (let st1 = st\<lparr>isResponding := False\<rparr>;
          imported = (case extractWorkflowJson fullResponse of
                        Some workflowJson \<Rightarrow> importWorkflowFromAI throws zero workflowJson
                      | None \<Rightarrow> ([], True));
          calls1 = fst imported
      in if \<not> snd imported then (st1, calls1)
         else if isGeneratingWorkflow st1
         then (st1\<lparr>isGeneratingWorkflow := False\<rparr>,
               calls1 @ [ShowMessage (js ''Workflow Generated'')])
         else (st1, calls1))"

section \<open>The client stream consumer (AiChatService.streamChatResponse)\<close>

text \<open>
  What a \<open>catch\<close> clause receives: an \<open>Error\<close> with its message, or another value,
  given by the text \<open>JSON.stringify\<close> prints for it.
\<close>

datatype thrown = ThrownError jstring | ThrownValue jstring





text \<open>
  The response of \<open>fetch\<close>: the body is the list of chunks that \<open>reader.read()\<close> yields,
  each already decoded by \<open>TextDecoder\<close>, and the way the stream ends (\<open>done\<close>, or
  \<open>read\<close> rejecting).
\<close>

datatype read_end = Done | ReadThrows thrown

record body =
  chunks :: "jstring list"
  ending :: read_end







section \<open>The streaming relay (CopilotController)\<close>

subsection \<open>Request validation\<close>

datatype role = User | Assistant

record ChatMessage =
  role :: role
  content :: jstring

record CopilotChatRequest =
  userMessage :: jstring
  conversationHistory :: "ChatMessage list"

text \<open>
  \<open>CopilotChatRequestDto.parse(req.body)\<close> on a JSON body, after the zod schema:
  \<open>z.object\<close> takes objects only, \<open>z.string().min(1)\<close> a string of length at least 1,
  \<open>.optional().default([])\<close> turns a missing key into \<open>[]\<close>. \<open>None\<close> is the ZodError.
\<close>

definition parse_message :: "json \<Rightarrow> ChatMessage option" where
  "parse_message v =
     (case v of
        JObj ps \<Rightarrow>
          (case (get_prop ps (js ''role''), get_prop ps (js ''content'')) of
             (Some (JStr r), Some (JStr c)) \<Rightarrow>
               if r = js ''user'' then Some \<lparr>role = User, content = c\<rparr>
               else if r = js ''assistant'' then Some \<lparr>role = Assistant, content = c\<rparr>
               else None
           | _ \<Rightarrow> None)
      | _ \<Rightarrow> None)"

definition parse_history :: "json option \<Rightarrow> ChatMessage list option" where
  "parse_history v =
     (case v of
        None \<Rightarrow> Some []
      | Some (JArr xs) \<Rightarrow> those (map parse_message xs)
      | Some _ \<Rightarrow> None)"

definition CopilotChatRequestDto :: "json \<Rightarrow> CopilotChatRequest option" where
  "CopilotChatRequestDto body =
     (case body of
        JObj ps \<Rightarrow>
          (case get_prop ps (js ''userMessage'') of
             Some (JStr m) \<Rightarrow>
               if 1 \<le> length m then
                 (case parse_history (get_prop ps (js ''conversationHistory'')) of
                    Some h \<Rightarrow> Some \<lparr>userMessage = m, conversationHistory = h\<rparr>
                  | None \<Rightarrow> None)
               else None
           | _ \<Rightarrow> None)
      | _ \<Rightarrow> None)"

subsection \<open>Credential resolution\<close>

datatype response_error =
    BadRequestError jstring
  | ForbiddenError jstring
  | NotFoundError jstring

text \<open>
  Modelled from the spec: the HTTP status of the response-error classes, which are
  imported from outside the given sources (bad input 400, forbidden 403, not found 404).
\<close>

fun http_status :: "response_error \<Rightarrow> nat" where
  "http_status (BadRequestError m) = 400"
| "http_status (ForbiddenError m) = 403"
| "http_status (NotFoundError m) = 404"

record credential =
  cred_id :: jstring
  cred_type :: jstring

text \<open>
  The credential services as the handler sees them for the requesting user: the list
  \<open>getMany\<close> returns, the lookup with the \<open>credential:read\<close> scope (\<open>None\<close> is
  \<open>null\<close>), and the \<open>apiKey\<close> property of the decrypted data (\<open>None\<close> is
  \<open>undefined\<close>).
\<close>

record 'c credential_services =
  getMany :: "credential list"
  findCredentialForUser :: "jstring \<Rightarrow> 'c option"
  decrypt_apiKey :: "'c \<Rightarrow> json option"

definition getAnthropicApiKey :: "'c credential_services \<Rightarrow> response_error + jstring" where
  "getAnthropicApiKey env =
     (case find (\<lambda>cred. cred_type cred = js ''anthropicApi'') (getMany env) of
        None \<Rightarrow> Inl (NotFoundError
          (js ''No Anthropic credentials found. Please configure Anthropic credentials first.''))
      | Some anthropicCredential \<Rightarrow>
          (case findCredentialForUser env (cred_id anthropicCredential) of
             None \<Rightarrow> Inl (ForbiddenError
               (js ''You do not have permission to access the Anthropic credentials.''))
           | Some credentialWithData \<Rightarrow>
               (case decrypt_apiKey env credentialWithData of
                  Some (JStr apiKey) \<Rightarrow>
                    if apiKey \<noteq> [] then Inr apiKey
                    else Inl (BadRequestError (js ''Anthropic API key not found in credentials.''))
                | _ \<Rightarrow> Inl (BadRequestError (js ''Anthropic API key not found in credentials.'')))))"

subsection \<open>Streaming\<close>

text \<open>
  The provider's stream for one call: the chunks it yields and how it ends
  (exhausted, or throwing; a call that throws at once yields no chunk).
\<close>

datatype delta = TextDelta jstring | OtherDelta

datatype stream_chunk = ContentBlockDelta delta | OtherChunk

datatype stream_end = Exhausted | StreamThrows thrown

record provider_stream =
  stream_chunks :: "stream_chunk list"
  stream_end :: stream_end

text \<open>The operations on the response object \<open>res\<close>, in order.\<close>

datatype res_op =
    WriteHead nat "(jstring \<times> jstring) list"
  | Write jstring
  | Flush
  | End

text \<open>\<open>`data: ${JSON.stringify(data)}\n\n`\<close>\<close>

definition sse_frame :: "(jstring \<Rightarrow> jstring) \<Rightarrow> json \<Rightarrow> jstring" where
  "sse_frame fmt data = js ''data: '' @ JSON_stringify fmt data @ [0x0A, 0x0A]"

definition text_event :: "jstring \<Rightarrow> json" where
  "text_event t = JObj [(js ''type'', JStr (js ''text'')), (js ''content'', JStr t)]"

definition complete_event :: json where
  "complete_event = JObj [(js ''type'', JStr (js ''complete''))]"

definition error_event :: "jstring \<Rightarrow> json" where
  "error_event m = JObj [(js ''type'', JStr (js ''error'')), (js ''content'', JStr m)]"

text \<open>\<open>for await (const chunk of stream) { ... }\<close>; \<open>hasFlush\<close> says whether \<open>res.flush\<close> exists.\<close>

fun stream_writes :: "(jstring \<Rightarrow> jstring) \<Rightarrow> bool \<Rightarrow> stream_chunk list \<Rightarrow> res_op list" where
  "stream_writes fmt hasFlush [] = []"
| "stream_writes fmt hasFlush (ContentBlockDelta (TextDelta t) # cs) =
     Write (sse_frame fmt (text_event t)) # (if hasFlush then [Flush] else [])
       @ stream_writes fmt hasFlush cs"
| "stream_writes fmt hasFlush (c # cs) = stream_writes fmt hasFlush cs"

text \<open>
  \<open>streamError instanceof Error ? streamError.message
     : `Streaming failed: ${JSON.stringify(streamError)}`\<close>
\<close>

fun stream_error_message :: "thrown \<Rightarrow> jstring" where
  "stream_error_message (ThrownError m) = m"
| "stream_error_message (ThrownValue v) = js ''Streaming failed: '' @ v"

text \<open>The inner \<open>try\<close>/\<open>catch\<close>: the writes of the loop, then the terminal event and \<open>res.end()\<close>.\<close>

definition stream_phase :: "(jstring \<Rightarrow> jstring) \<Rightarrow> bool \<Rightarrow> provider_stream \<Rightarrow> res_op list" where
  "stream_phase fmt hasFlush p =
     stream_writes fmt hasFlush (stream_chunks p)
     @ (case stream_end p of
          Exhausted \<Rightarrow> [Write (sse_frame fmt complete_event), End]
        | StreamThrows e \<Rightarrow> [Write (sse_frame fmt (error_event (stream_error_message e))), End])"

record request =
  body :: json
  origin :: "jstring option"

definition sse_headers :: "jstring option \<Rightarrow> (jstring \<times> jstring) list" where
  "sse_headers org =
     [(js ''Content-Type'', js ''text/event-stream''),
      (js ''Cache-Control'', js ''no-cache''),
      (js ''Connection'', js ''keep-alive''),
      (js ''Access-Control-Allow-Origin'',
         (case org of
            None \<Rightarrow> js ''http://localhost:8080''
          | Some v \<Rightarrow> if v \<noteq> [] then v else js ''http://localhost:8080'')),
      (js ''Access-Control-Allow-Credentials'', js ''true''),
      (js ''Access-Control-Allow-Headers'', js ''Cache-Control, Content-Type'')]"

text \<open>
  \<open>chatWithCopilot(req, res)\<close>: the error the handler throws (\<open>Inl\<close>) or its normal
  return, and the operations it performed on \<open>res\<close>. \<open>provider apiKey messages\<close> is the
  stream the model provider gives for the call. Logging is not part of the trace.
\<close>

definition chatWithCopilot ::
  "(jstring \<Rightarrow> jstring) \<Rightarrow> bool \<Rightarrow> 'c credential_services
     \<Rightarrow> (jstring \<Rightarrow> ChatMessage list \<Rightarrow> provider_stream) \<Rightarrow> request
     \<Rightarrow> (response_error + unit) \<times> res_op list" where
  "chatWithCopilot fmt hasFlush env provider req =
     (case CopilotChatRequestDto (body req) of
        None \<Rightarrow> (Inl (BadRequestError (js ''Invalid request payload'')), [])
      | Some validatedPayload \<Rightarrow>
          (case getAnthropicApiKey env of
             Inl e \<Rightarrow> (Inl e, [])
           | Inr apiKey \<Rightarrow>
               (let messages = conversationHistory validatedPayload
                                 @ [\<lparr>role = User, content = userMessage validatedPayload\<rparr>]
                in (Inr (),
                    WriteHead 200 (sse_headers (origin req))
                      # stream_phase fmt hasFlush (provider apiKey messages)))))"

section \<open>Evaluation rules\<close>

text \<open>The definitions the simplifier unfolds to run the model on a concrete input.\<close>

lemmas lex_defs =
  js_def is_json_ws_def cons_tok_def cons_char_def is_digit_def valid_number_def
  valid_int_def valid_frac_def valid_exp_def digits1_def is_num_char_def starts_with_def
  hex4_def hex_val_def unescape_def

lemmas parse_defs =
  JSON_parse_def parse_tokens_def js_define_def wants_value_def array_index_def digits_value_def get_prop_def

lemmas stringify_defs =
  JSON_stringify2_def quote_def escape_unit_def number_to_string_def is_high_surrogate_def
  is_low_surrogate_def unicode_escape_def hex_digit_def

lemmas regex_defs =
  regex_matches.simps fence_open_def fence_close_def block_tail_at_def open_tail_at_def match_here_def
  regex_search_def is_space_def

lemmas parser_defs =
  completed_loop.simps incomplete_loop.simps parseMessageContent_def new_RegExp_def exec_def isCompleted_def allBlocks_def
  push_text_def push_json_def slice_def trim_def

section \<open>Properties of the incremental content parser\<close>

text \<open>
  C5. On the text \<open>intro ```json\n{"a":1}\n``` outro\<close> the parser returns exactly three
  segments, in order: the text segment \<open>intro\<close>, the structured segment holding the
  pretty-printed JSON (an opening brace, a line with two spaces and \<open>"a": 1\<close>, a closing
  brace), and the text segment \<open>outro\<close>. This holds from every store of RegExp objects.
\<close>

theorem parse_closed_block:
  \<open>fst (parseMessageContent fmt (js ''intro ```json\<newline>{"a":1}\<newline>``` outro'') h) =
     [TextPart (js ''intro''),
      JsonPart (js ''{\<newline>  "a": 1\<newline>}''),
      TextPart (js ''outro'')]\<close>
  by (simp add: parser_defs regex_defs lex_defs parse_defs stringify_defs)

text \<open>
  C6. On the text \<open>intro ```json\n{"a":1\<close>, where the start marker has no closing fence
  before the end of the text, the parser returns exactly two segments, in order: the
  text segment \<open>intro\<close> and a structured segment holding the raw text \<open>{"a":1\<close>, which
  is passed through unchanged because it does not parse as JSON.
\<close>

theorem parse_open_block:
  \<open>fst (parseMessageContent fmt (js ''intro ```json\<newline>{"a":1'') h) =
     [TextPart (js ''intro''), JsonPart (js ''{"a":1'')]
   \<and> JSON_parse (js ''{"a":1'') = None\<close>
  by (simp add: parser_defs regex_defs lex_defs parse_defs stringify_defs)

text \<open>
  C7. Two calls of the parser on the same text yield the same segments: the result of
  a call does not depend on the store of RegExp objects it starts from, so it is the
  same from any two stores, and in particular a second call, started from the store
  the first call left behind, returns what the first returned.
\<close>

theorem parser_deterministic:
  "fst (parseMessageContent fmt s h) = fst (parseMessageContent fmt s h')
   \<and> fst (parseMessageContent fmt s (snd (parseMessageContent fmt s h)))
       = fst (parseMessageContent fmt s h)"
  by (simp add: parseMessageContent_segments)

section \<open>Properties of workflow extraction\<close>

definition two_blocks :: jstring where
  \<open>two_blocks = js ''first ```json\<newline>{"nodes":[]}\<newline>``` then ```json\<newline>{"nodes":[1]}\<newline>``` done''\<close>

text \<open>
  C3. When the accumulated response contains more than one closed \<open>```json\<close> block,
  the extraction step takes the content of the last one as the candidate workflow
  document: the result is decided by parsing and checking that content alone, the
  last block is the one with the greatest start position, and it starts after the
  first.
\<close>

theorem extract_selects_last_block:
  assumes "regex_matches JsonBlock responseText 0 = ms" and "1 < length ms"
  shows "extractWorkflowJson responseText =
           (case JSON_parse (snd (snd (last ms))) of
              None \<Rightarrow> None
            | Some parsed \<Rightarrow> if is_workflow parsed then Some parsed else None)
         \<and> fst (last ms) = Max (fst ` set ms)
         \<and> fst (hd ms) < fst (last ms)"
proof -
  from assms(2) have ne: "ms \<noteq> []" by auto
  then have lst: "ms ! (length ms - 1) = last ms" by (simp add: last_conv_nth)
  have srt: "sorted_wrt (<) (map fst ms)"
    using regex_matches_sorted [of JsonBlock responseText 0] assms(1) by simp
  from sorted_wrt_last_Max [OF srt] ne have mx: "fst (last ms) = Max (fst ` set ms)"
    by (simp add: last_map)
  from assms(2) obtain a b rest where ms: "ms = a # b # rest"
    by (cases ms; cases "tl ms") auto
  with srt have "fst a < fst (last (b # rest))" by auto
  with ms have lt: "fst (hd ms) < fst (last ms)" by simp
  from assms(1) ne lst mx lt show ?thesis
    by (simp add: extractWorkflowJson_def Let_def)
qed

theorem extract_selects_last_block_witness:
  \<open>regex_matches JsonBlock two_blocks 0 =
     [(6, 24, js ''{"nodes":[]}''), (36, 25, js ''{"nodes":[1]}'')]
   \<and> extractWorkflowJson two_blocks = Some (JObj [(js ''nodes'', JArr [JNum (js ''1'')])])
   \<and> JSON_parse (js ''{"nodes":[]}'') = Some (JObj [(js ''nodes'', JArr [])])\<close>
proof -
  have m: \<open>regex_matches JsonBlock two_blocks 0 =
     [(6, 24, js ''{"nodes":[]}''), (36, 25, js ''{"nodes":[1]}'')]\<close>
    by (simp add: two_blocks_def regex_defs lex_defs)
  have l: \<open>1 < length [(6::nat, 24::nat, js ''{"nodes":[]}''), (36, 25, js ''{"nodes":[1]}'')]\<close>
    by simp
  from extract_selects_last_block [OF m l] m show ?thesis
    by (simp add: lex_defs parse_defs is_workflow_def)
qed

lemma is_workflow_iff:
  "is_workflow v \<longleftrightarrow> (\<exists>ps xs. v = JObj ps \<and> map_of ps (js ''nodes'') = Some (JArr xs))"
  by (auto simp: is_workflow_def get_prop_def split: json.splits option.splits)

lemma extractWorkflowJson_None:
  assumes "ms = regex_matches JsonBlock fullResponse 0"
    and "ms = [] \<or> JSON_parse (snd (snd (last ms))) = None
         \<or> (\<exists>v. JSON_parse (snd (snd (last ms))) = Some v
                \<and> \<not> (\<exists>ps xs. v = JObj ps \<and> map_of ps (js ''nodes'') = Some (JArr xs)))"
  shows "extractWorkflowJson fullResponse = None"
proof (cases "ms = []")
  case True
  with assms(1) show ?thesis by (simp add: extractWorkflowJson_def)
next
  case False
  then have "ms ! (length ms - 1) = last ms" by (simp add: last_conv_nth)
  with False assms show ?thesis
    by (auto simp: extractWorkflowJson_def Let_def is_workflow_iff)
qed

text \<open>
  C4. If the accumulated response contains no closed block, or the content of the
  selected (last) block does not parse as JSON, or it parses to a value that is not an
  object with an array-valued \<open>nodes\<close> field, then the completion callback leaves the
  workflow alone: the only call it may make is the closing notice, it calls neither
  \<open>resetWorkspace\<close> nor \<open>initializeWorkspace\<close>.
\<close>

theorem no_workflow_no_replacement:
  assumes "ms = regex_matches JsonBlock fullResponse 0"
    and "ms = [] \<or> JSON_parse (snd (snd (last ms))) = None
         \<or> (\<exists>v. JSON_parse (snd (snd (last ms))) = Some v
                \<and> \<not> (\<exists>ps xs. v = JObj ps \<and> map_of ps (js ''nodes'') = Some (JArr xs)))"
  shows "snd (onComplete throws zero fullResponse st) =
           (if isGeneratingWorkflow st then [ShowMessage (js ''Workflow Generated'')] else [])
         \<and> ResetWorkspace \<notin> set (snd (onComplete throws zero fullResponse st))
         \<and> (\<forall>w. InitializeWorkspace w \<notin> set (snd (onComplete throws zero fullResponse st)))"
  using extractWorkflowJson_None [OF assms]
  by (simp add: onComplete_def Let_def)

definition idle_panel :: panel where
  "idle_panel = \<lparr>isResponding = True, isGeneratingWorkflow = False\<rparr>"

theorem no_workflow_no_replacement_witness:
  \<open>regex_matches JsonBlock (js ''no block here'') 0 = []
   \<and> onComplete (\<lambda>c. False) (\<lambda>n. False) (js ''no block here'') idle_panel
       = (\<lparr>isResponding = False, isGeneratingWorkflow = False\<rparr>, [])
   \<and> JSON_parse (js ''{"nodes":'') = None
   \<and> snd (onComplete (\<lambda>c. False) (\<lambda>n. False) (js ''```json\<newline>{"nodes":\<newline>```'') idle_panel) = []
   \<and> JSON_parse (js ''{"nodes":3}'') = Some (JObj [(js ''nodes'', JNum (js ''3''))])
   \<and> snd (onComplete (\<lambda>c. False) (\<lambda>n. False) (js ''```json\<newline>{"nodes":3}\<newline>```'') idle_panel) = []\<close>
proof -
  have m1: \<open>regex_matches JsonBlock (js ''no block here'') 0 = []\<close>
    by (simp add: regex_defs lex_defs)
  have m2: \<open>regex_matches JsonBlock (js ''```json\<newline>{"nodes":\<newline>```'') 0 = [(0, 21, js ''{"nodes":'')]\<close>
    by (simp add: regex_defs lex_defs)
  have m3: \<open>regex_matches JsonBlock (js ''```json\<newline>{"nodes":3}\<newline>```'') 0 = [(0, 23, js ''{"nodes":3}'')]\<close>
    by (simp add: regex_defs lex_defs)
  have p2: \<open>JSON_parse (js ''{"nodes":'') = None\<close>
    by (simp add: lex_defs parse_defs)
  have p3: \<open>JSON_parse (js ''{"nodes":3}'') = Some (JObj [(js ''nodes'', JNum (js ''3''))])\<close>
    by (simp add: lex_defs parse_defs)
  have n3: \<open>\<not> (\<exists>ps xs. JObj [(js ''nodes'', JNum (js ''3''))] = JObj ps
                  \<and> map_of ps (js ''nodes'') = Some (JArr xs))\<close>
    by (simp add: js_def)
  have w1: "snd (onComplete (\<lambda>c. False) (\<lambda>n. False) (js ''no block here'') idle_panel) = []"
    using no_workflow_no_replacement [OF m1 [symmetric], of "\<lambda>c. False" "\<lambda>n. False" idle_panel]
    by (simp add: idle_panel_def)
  have w2: \<open>snd (onComplete (\<lambda>c. False) (\<lambda>n. False) (js ''```json\<newline>{"nodes":\<newline>```'') idle_panel) = []\<close>
    using no_workflow_no_replacement [OF m2 [symmetric], of "\<lambda>c. False" "\<lambda>n. False" idle_panel] p2
    by (simp add: idle_panel_def)
  have w3: \<open>snd (onComplete (\<lambda>c. False) (\<lambda>n. False) (js ''```json\<newline>{"nodes":3}\<newline>```'') idle_panel) = []\<close>
    using no_workflow_no_replacement [OF m3 [symmetric], of "\<lambda>c. False" "\<lambda>n. False" idle_panel] p3 n3
    by (simp add: idle_panel_def)
  have f1: "fst (onComplete (\<lambda>c. False) (\<lambda>n. False) (js ''no block here'') idle_panel)
              = \<lparr>isResponding = False, isGeneratingWorkflow = False\<rparr>"
    by (simp add: onComplete_def idle_panel_def Let_def)
  from m1 w1 f1 p2 w2 p3 w3 show ?thesis
    by (simp add: prod_eq_iff)
qed

section \<open>Properties of the streaming relay\<close>

text \<open>The text deltas among the provider's chunks, in arrival order.\<close>

fun text_deltas :: "stream_chunk list \<Rightarrow> jstring list" where
  "text_deltas [] = []"
| "text_deltas (ContentBlockDelta (TextDelta t) # cs) = t # text_deltas cs"
| "text_deltas (c # cs) = text_deltas cs"

text \<open>The terminal event: \<open>complete\<close> after exhaustion, \<open>error\<close> with the message after a failure.\<close>

fun terminal_event :: "stream_end \<Rightarrow> json" where
  "terminal_event Exhausted = complete_event"
| "terminal_event (StreamThrows e) = error_event (stream_error_message e)"

text \<open>The payloads written to the channel, in order.\<close>

fun written :: "res_op list \<Rightarrow> jstring list" where
  "written [] = []"
| "written (Write d # ops) = d # written ops"
| "written (x # ops) = written ops"

lemma stream_writes_written:
  "written (stream_writes fmt hasFlush cs) = map (\<lambda>t. sse_frame fmt (text_event t)) (text_deltas cs)"
  by (induction cs rule: text_deltas.induct) auto

lemma stream_writes_no_end:
  "End \<notin> set (stream_writes fmt hasFlush cs)"
  by (induction cs rule: text_deltas.induct) auto

lemma stream_writes_no_head:
  "WriteHead c hs \<notin> set (stream_writes fmt hasFlush cs)"
  by (induction cs rule: text_deltas.induct) auto

text \<open>
  C1. For every request that reaches the streaming phase (its body passes validation
  and the API key resolves), the handler returns normally and its operations on the
  response are: the SSE header, then a list \<open>ops\<close> whose writes are exactly one
  \<open>text\<close> event per text delta of the provider, in arrival order, then one terminal
  event (\<open>complete\<close> when the provider's stream is exhausted, \<open>error\<close> with the message
  when it fails), then \<open>res.end()\<close>. The channel is not closed before the terminal
  event, and nothing follows its closing.
\<close>

theorem relay_event_sequence:
  assumes "CopilotChatRequestDto (body req) = Some payload"
    and "getAnthropicApiKey env = Inr apiKey"
    and "p = provider apiKey
               (conversationHistory payload @ [\<lparr>role = User, content = userMessage payload\<rparr>])"
  shows "\<exists>ops. chatWithCopilot fmt hasFlush env provider req =
                 (Inr (), WriteHead 200 (sse_headers (origin req))
                            # ops @ [Write (sse_frame fmt (terminal_event (stream_end p))), End])
               \<and> written ops = map (\<lambda>t. sse_frame fmt (text_event t)) (text_deltas (stream_chunks p))
               \<and> End \<notin> set ops"
proof -
  have "chatWithCopilot fmt hasFlush env provider req =
          (Inr (), WriteHead 200 (sse_headers (origin req))
                     # stream_writes fmt hasFlush (stream_chunks p)
                       @ [Write (sse_frame fmt (terminal_event (stream_end p))), End])"
    using assms
    by (cases "stream_end p") (simp_all add: chatWithCopilot_def stream_phase_def Let_def)
  then show ?thesis
    using stream_writes_written [of fmt hasFlush "stream_chunks p"]
      stream_writes_no_end [of fmt hasFlush "stream_chunks p"]
    by blast
qed

text \<open>Concrete collaborators, used to run the handler.\<close>

definition example_services :: "jstring credential_services" where
  "example_services =
     \<lparr>getMany = [\<lparr>cred_id = js ''c1'', cred_type = js ''openAiApi''\<rparr>,
                 \<lparr>cred_id = js ''c2'', cred_type = js ''anthropicApi''\<rparr>],
      findCredentialForUser = (\<lambda>i. if i = js ''c2'' then Some (js ''sk-test'') else None),
      decrypt_apiKey = (\<lambda>d. Some (JStr d))\<rparr>"

definition no_anthropic_services :: "jstring credential_services" where
  "no_anthropic_services =
     \<lparr>getMany = [\<lparr>cred_id = js ''c1'', cred_type = js ''openAiApi''\<rparr>],
      findCredentialForUser = (\<lambda>i. None),
      decrypt_apiKey = (\<lambda>d. None)\<rparr>"

definition example_provider :: "jstring \<Rightarrow> ChatMessage list \<Rightarrow> provider_stream" where
  "example_provider apiKey messages =
     \<lparr>stream_chunks = [OtherChunk, ContentBlockDelta (TextDelta (js ''Hel'')),
                       ContentBlockDelta OtherDelta, ContentBlockDelta (TextDelta (js ''lo''))],
      stream_end = Exhausted\<rparr>"

definition failing_provider :: "jstring \<Rightarrow> ChatMessage list \<Rightarrow> provider_stream" where
  "failing_provider apiKey messages =
     \<lparr>stream_chunks = [ContentBlockDelta (TextDelta (js ''Hel''))],
      stream_end = StreamThrows (ThrownError (js ''overloaded''))\<rparr>"

definition example_request :: request where
  "example_request = \<lparr>body = JObj [(js ''userMessage'', JStr (js ''hi''))], origin = None\<rparr>"

lemmas relay_defs =
  chatWithCopilot_def CopilotChatRequestDto_def parse_history_def parse_message_def
  getAnthropicApiKey_def stream_phase_def sse_frame_def text_event_def complete_event_def
  error_event_def Let_def

lemma example_request_valid:
  "CopilotChatRequestDto (body example_request)
     = Some \<lparr>userMessage = js ''hi'', conversationHistory = []\<rparr>"
  by (simp add: example_request_def relay_defs parse_defs js_def)

lemma example_services_key: "getAnthropicApiKey example_services = Inr (js ''sk-test'')"
  by (simp add: example_services_def relay_defs js_def)

theorem relay_event_sequence_witness:
  \<open>snd (chatWithCopilot id True example_services example_provider example_request) =
     [WriteHead 200 (sse_headers None),
      Write (js ''data: {"type":"text","content":"Hel"}\<newline>\<newline>''), Flush,
      Write (js ''data: {"type":"text","content":"lo"}\<newline>\<newline>''), Flush,
      Write (js ''data: {"type":"complete"}\<newline>\<newline>''), End]
   \<and> snd (chatWithCopilot id False example_services failing_provider example_request) =
     [WriteHead 200 (sse_headers None),
      Write (js ''data: {"type":"text","content":"Hel"}\<newline>\<newline>''),
      Write (js ''data: {"type":"error","content":"overloaded"}\<newline>\<newline>''), End]\<close>
proof -
  obtain ops where
    "chatWithCopilot id True example_services example_provider example_request =
       (Inr (), WriteHead 200 (sse_headers (origin example_request))
         # ops @ [Write (sse_frame id (terminal_event (stream_end
             (example_provider (js ''sk-test'') ([] @ [\<lparr>role = User, content = js ''hi''\<rparr>]))))), End])"
    using relay_event_sequence [OF example_request_valid example_services_key refl,
        where provider = example_provider and fmt = id and hasFlush = True]
    by auto
  then show ?thesis
    by (simp add: example_request_def example_services_def example_provider_def failing_provider_def
          relay_defs parse_defs stringify_defs js_def)
qed

lemma find_anthropic_None:
  "js ''anthropicApi'' \<notin> cred_type ` set creds
     \<Longrightarrow> find (\<lambda>cred. cred_type cred = js ''anthropicApi'') creds = None"
  by (induction creds) auto

text \<open>
  C8, as amended. For a user whose credential list holds no credential of type
  \<open>anthropicApi\<close>, the handler throws before \<open>res.writeHead\<close>: it performs no operation
  on the response, so no SSE header and no SSE event is written, whatever the request.
  When the request body passes validation, the error is the not-found error, of status
  404. (Validation comes first: an invalid body is answered by the bad-request error.)
\<close>

theorem missing_credential_not_found:
  assumes "js ''anthropicApi'' \<notin> cred_type ` set (getMany env)"
  shows "snd (chatWithCopilot fmt hasFlush env provider req) = []
         \<and> (\<exists>e. fst (chatWithCopilot fmt hasFlush env provider req) = Inl e)
         \<and> (CopilotChatRequestDto (body req) \<noteq> None \<longrightarrow>
              (\<exists>m. fst (chatWithCopilot fmt hasFlush env provider req) = Inl (NotFoundError m)
                   \<and> http_status (NotFoundError m) = 404))"
  using find_anthropic_None [OF assms]
  by (auto simp: chatWithCopilot_def getAnthropicApiKey_def split: option.splits)

theorem missing_credential_not_found_witness:
  "js ''anthropicApi'' \<notin> cred_type ` set (getMany no_anthropic_services)
   \<and> CopilotChatRequestDto (body example_request) \<noteq> None
   \<and> chatWithCopilot id True no_anthropic_services example_provider example_request =
       (Inl (NotFoundError
          (js ''No Anthropic credentials found. Please configure Anthropic credentials first.'')), [])"
proof -
  have h: "js ''anthropicApi'' \<notin> cred_type ` set (getMany no_anthropic_services)"
    by (simp add: no_anthropic_services_def js_def)
  have c: "chatWithCopilot id True no_anthropic_services example_provider example_request =
       (Inl (NotFoundError
          (js ''No Anthropic credentials found. Please configure Anthropic credentials first.'')), [])"
    by (simp add: no_anthropic_services_def example_request_def relay_defs parse_defs js_def)
  from missing_credential_not_found [OF h, of id True example_provider example_request]
    example_request_valid h c
  show ?thesis by simp
qed

text \<open>
  C8 as stated fails: a user without an \<open>anthropicApi\<close> credential who sends an empty
  \<open>userMessage\<close> gets the bad-request error (status 400), not the not-found error.
\<close>

theorem missing_credential_counterexample:
  "js ''anthropicApi'' \<notin> cred_type ` set (getMany no_anthropic_services)
   \<and> chatWithCopilot id True no_anthropic_services example_provider
        \<lparr>body = JObj [(js ''userMessage'', JStr [])], origin = None\<rparr>
       = (Inl (BadRequestError (js ''Invalid request payload'')), [])
   \<and> http_status (BadRequestError (js ''Invalid request payload'')) = 400"
  by (simp add: no_anthropic_services_def relay_defs parse_defs js_def)

fun role_name :: "role \<Rightarrow> jstring" where
  "role_name User = js ''user''"
| "role_name Assistant = js ''assistant''"

text \<open>A JSON value that is a role/content pair: an object with these two string fields.\<close>

definition encodes :: "json \<Rightarrow> ChatMessage \<Rightarrow> bool" where
  "encodes v msg =
     (case v of
        JObj ps \<Rightarrow> map_of ps (js ''role'') = Some (JStr (role_name (role msg)))
                   \<and> map_of ps (js ''content'') = Some (JStr (content msg))
      | _ \<Rightarrow> False)"

lemma parse_message_encodes: "encodes v msg \<Longrightarrow> parse_message v = Some msg"
  by (cases "role msg")
     (auto simp: encodes_def parse_message_def get_prop_def js_def split: json.splits)

lemma those_encodes: "list_all2 encodes items hist \<Longrightarrow> those (map parse_message items) = Some hist"
  by (induction items hist rule: list_all2_induct) (auto simp: parse_message_encodes)

text \<open>
  C9. A body whose \<open>userMessage\<close> is a non-empty string, with \<open>conversationHistory\<close>
  absent (the history is then empty) or a list of role/content pairs with role \<open>user\<close>
  or \<open>assistant\<close>, passes validation with exactly these values, and the handler does
  not reject it as an invalid payload. A body whose \<open>userMessage\<close> is the empty string
  is rejected: the handler throws the bad-request error, of status 400, and performs
  no operation on the response.
\<close>

theorem request_validation:
  "(map_of ps (js ''userMessage'') = Some (JStr m) \<and> m \<noteq> []
      \<and> (case map_of ps (js ''conversationHistory'') of
            None \<Rightarrow> hist = []
          | Some v \<Rightarrow> \<exists>items. v = JArr items \<and> list_all2 encodes items hist)
     \<longrightarrow> CopilotChatRequestDto (JObj ps) = Some \<lparr>userMessage = m, conversationHistory = hist\<rparr>
         \<and> fst (chatWithCopilot fmt hasFlush env provider \<lparr>body = JObj ps, origin = org\<rparr>)
             \<noteq> Inl (BadRequestError (js ''Invalid request payload'')))
   \<and> (map_of ps (js ''userMessage'') = Some (JStr [])
     \<longrightarrow> chatWithCopilot fmt hasFlush env provider \<lparr>body = JObj ps, origin = org\<rparr>
           = (Inl (BadRequestError (js ''Invalid request payload'')), [])
         \<and> http_status (BadRequestError (js ''Invalid request payload'')) = 400)"
proof (intro conjI impI)
  assume a: "map_of ps (js ''userMessage'') = Some (JStr m) \<and> m \<noteq> []
      \<and> (case map_of ps (js ''conversationHistory'') of
            None \<Rightarrow> hist = []
          | Some v \<Rightarrow> \<exists>items. v = JArr items \<and> list_all2 encodes items hist)"
  then have h: "parse_history (map_of ps (js ''conversationHistory'')) = Some hist"
    by (auto simp: parse_history_def those_encodes split: option.splits)
  from a have "1 \<le> length m" by (cases m) auto
  with a h show v: "CopilotChatRequestDto (JObj ps)
      = Some \<lparr>userMessage = m, conversationHistory = hist\<rparr>"
    by (simp add: CopilotChatRequestDto_def get_prop_def)
  have ne: "js ''Anthropic API key not found in credentials.'' \<noteq> js ''Invalid request payload''"
    by (simp add: js_def)
  show "fst (chatWithCopilot fmt hasFlush env provider \<lparr>body = JObj ps, origin = org\<rparr>)
          \<noteq> Inl (BadRequestError (js ''Invalid request payload''))"
    using v ne
    by (auto simp: chatWithCopilot_def getAnthropicApiKey_def Let_def
             split: option.splits sum.splits json.splits if_splits)
next
  assume "map_of ps (js ''userMessage'') = Some (JStr [])"
  then show "chatWithCopilot fmt hasFlush env provider \<lparr>body = JObj ps, origin = org\<rparr>
           = (Inl (BadRequestError (js ''Invalid request payload'')), [])"
    by (simp add: chatWithCopilot_def CopilotChatRequestDto_def get_prop_def)
next
  show "http_status (BadRequestError (js ''Invalid request payload'')) = 400" by simp
qed

theorem request_validation_witness:
  \<open>CopilotChatRequestDto (JObj [(js ''userMessage'', JStr (js ''hi''))])
     = Some \<lparr>userMessage = js ''hi'', conversationHistory = []\<rparr>
   \<and> CopilotChatRequestDto
       (JObj [(js ''userMessage'', JStr (js ''and now?'')),
              (js ''conversationHistory'',
               JArr [JObj [(js ''role'', JStr (js ''user'')), (js ''content'', JStr (js ''hi''))],
                     JObj [(js ''role'', JStr (js ''assistant'')), (js ''content'', JStr [])]])])
     = Some \<lparr>userMessage = js ''and now?'',
             conversationHistory = [\<lparr>role = User, content = js ''hi''\<rparr>,
                                    \<lparr>role = Assistant, content = []\<rparr>]\<rparr>
   \<and> chatWithCopilot id True example_services example_provider
        \<lparr>body = JObj [(js ''userMessage'', JStr [])], origin = None\<rparr>
       = (Inl (BadRequestError (js ''Invalid request payload'')), [])\<close>
proof -
  have e1: "encodes (JObj [(js ''role'', JStr (js ''user'')), (js ''content'', JStr (js ''hi''))])
              \<lparr>role = User, content = js ''hi''\<rparr>"
    by (simp add: encodes_def js_def)
  have e2: "encodes (JObj [(js ''role'', JStr (js ''assistant'')), (js ''content'', JStr [])])
              \<lparr>role = Assistant, content = []\<rparr>"
    by (simp add: encodes_def js_def)
  have ne: "js ''hi'' \<noteq> []" "js ''and now?'' \<noteq> []" by (simp_all add: js_def)
  have k: "js ''userMessage'' \<noteq> js ''conversationHistory''" by (simp add: js_def)
  from request_validation [of "[(js ''userMessage'', JStr (js ''hi''))]" "js ''hi''" "[]"
      id True example_services example_provider None] ne
  have w1: "CopilotChatRequestDto (JObj [(js ''userMessage'', JStr (js ''hi''))])
     = Some \<lparr>userMessage = js ''hi'', conversationHistory = []\<rparr>"
    by (simp add: js_def)
  from request_validation [of
      "[(js ''userMessage'', JStr (js ''and now?'')),
        (js ''conversationHistory'',
         JArr [JObj [(js ''role'', JStr (js ''user'')), (js ''content'', JStr (js ''hi''))],
               JObj [(js ''role'', JStr (js ''assistant'')), (js ''content'', JStr [])]])]"
      "js ''and now?''"
      "[\<lparr>role = User, content = js ''hi''\<rparr>, \<lparr>role = Assistant, content = []\<rparr>]"
      id True example_services example_provider None] ne e1 e2 k
  have w2: "CopilotChatRequestDto
       (JObj [(js ''userMessage'', JStr (js ''and now?'')),
              (js ''conversationHistory'',
               JArr [JObj [(js ''role'', JStr (js ''user'')), (js ''content'', JStr (js ''hi''))],
                     JObj [(js ''role'', JStr (js ''assistant'')), (js ''content'', JStr [])]])])
     = Some \<lparr>userMessage = js ''and now?'',
             conversationHistory = [\<lparr>role = User, content = js ''hi''\<rparr>,
                                    \<lparr>role = Assistant, content = []\<rparr>]\<rparr>"
    by simp
  from request_validation [of "[(js ''userMessage'', JStr [])]" "[]" "[]"
      id True example_services example_provider None]
  have w3: "chatWithCopilot id True example_services example_provider
        \<lparr>body = JObj [(js ''userMessage'', JStr [])], origin = None\<rparr>
       = (Inl (BadRequestError (js ''Invalid request payload'')), [])"
    by simp
  from w1 w2 w3 show ?thesis by simp
qed

section \<open>Properties of the client stream consumer\<close>
































section \<open>A frame split across two chunks\<close>

subsection \<open>Quoting and lexing a string\<close>





















subsection \<open>The frames the relay writes\<close>






















subsection \<open>A proper prefix of a written line\<close>













subsection \<open>A proper suffix of a written line\<close>

























subsection \<open>Lines of a chunk\<close>







subsection \<open>A frame cut by a read boundary\<close>
















end
